theory Spec2Isabelle
  imports Main "HOL-Library.Multiset"
begin

section \<open>Python values used by app.py\<close>

text \<open>
  A Python \<open>str\<close> is modelled as a \<open>string\<close>; every \<open>char\<close> stands for one code
  point below 256, so \<open>length\<close> is Python's \<open>len\<close> on such text. Exceptions are values:
  a function that can raise returns \<open>exn + 'a\<close>, with \<open>Inl\<close> the exception.
\<close>

datatype exn =
  ImportError
  | IndexError
  | HTTPError nat
  | External string

definition py_isspace :: "char \<Rightarrow> bool" where
  "py_isspace c = ((of_char c :: nat) \<in> {9, 10, 11, 12, 13, 28, 29, 30, 31, 32, 133, 160})"

definition py_islinebreak :: "char \<Rightarrow> bool" where
  "py_islinebreak c = ((of_char c :: nat) \<in> {10, 11, 12, 13, 28, 29, 30, 133})"

definition lower_char :: "char \<Rightarrow> char" where
  "lower_char c =
     (let n = (of_char c :: nat)
      in if (65 \<le> n \<and> n \<le> 90) \<or> (192 \<le> n \<and> n \<le> 214) \<or> (216 \<le> n \<and> n \<le> 222)
         then char_of (n + 32) else c)"

definition py_lower :: "string \<Rightarrow> string" where
  "py_lower s = map lower_char s"

definition py_startswith :: "string \<Rightarrow> string \<Rightarrow> bool" where
  "py_startswith s p = (take (length p) s = p)"

definition py_replace_char :: "char \<Rightarrow> char \<Rightarrow> string \<Rightarrow> string" where
  "py_replace_char a b s = map (\<lambda>c. if c = a then b else c) s"

fun py_join :: "string \<Rightarrow> string list \<Rightarrow> string" where
  "py_join sep [] = []"
| "py_join sep [x] = x"
| "py_join sep (x # y # ys) = x @ sep @ py_join sep (y # ys)"

definition py_strip :: "string \<Rightarrow> string" where
  "py_strip s = rev (dropWhile py_isspace (rev (dropWhile py_isspace s)))"

text \<open>\<open>s.split()\<close>: the maximal runs of non-whitespace characters.\<close>

fun split_ws :: "string \<Rightarrow> string \<Rightarrow> string list" where
  "split_ws cur [] = (if cur = [] then [] else [cur])"
| "split_ws cur (c # cs) =
     (if py_isspace c then (if cur = [] then split_ws [] cs else cur # split_ws [] cs)
      else split_ws (cur @ [c]) cs)"

definition py_split :: "string \<Rightarrow> string list" where
  "py_split s = split_ws [] s"

text \<open>\<open>s.split(sep)\<close> for a one-character separator: always at least one piece.\<close>

fun split_sep :: "char \<Rightarrow> string \<Rightarrow> string \<Rightarrow> string list" where
  "split_sep sep cur [] = [cur]"
| "split_sep sep cur (c # cs) =
     (if c = sep then cur # split_sep sep [] cs else split_sep sep (cur @ [c]) cs)"

definition py_split_on :: "char \<Rightarrow> string \<Rightarrow> string list" where
  "py_split_on sep s = split_sep sep [] s"

text \<open>\<open>s.splitlines()\<close>: a carriage return followed by a line feed is one boundary,
  and a final boundary opens no further line.\<close>

fun splitlines_from :: "string \<Rightarrow> string \<Rightarrow> string list" where
  "splitlines_from cur [] = (if cur = [] then [] else [cur])"
| "splitlines_from cur [c] = (if py_islinebreak c then [cur] else [cur @ [c]])"
| "splitlines_from cur (c # d # cs) =
     (if c = CHR 0x0D \<and> d = CHR 0x0A then
        (if cs = [] then [cur] else cur # splitlines_from [] cs)
      else if py_islinebreak c then cur # splitlines_from [] (d # cs)
      else splitlines_from (cur @ [c]) (d # cs))"

definition py_splitlines :: "string \<Rightarrow> string list" where
  "py_splitlines s = splitlines_from [] s"

text \<open>\<open>list(dict.fromkeys(xs))\<close>: a key already in the dict keeps its first position.\<close>

fun fromkeys :: "'a list \<Rightarrow> 'a list \<Rightarrow> 'a list" where
  "fromkeys seen [] = seen"
| "fromkeys seen (x # xs) = (if x \<in> set seen then fromkeys seen xs else fromkeys (seen @ [x]) xs)"

definition dict_fromkeys :: "'a list \<Rightarrow> 'a list" where
  "dict_fromkeys xs = fromkeys [] xs"

text \<open>\<open>s[:k]\<close> for an integer \<open>k\<close>: a negative \<open>k\<close> counts from the end.\<close>

definition py_slice_to :: "'a list \<Rightarrow> int \<Rightarrow> 'a list" where
  "py_slice_to s k = (if 0 \<le> k then take (nat k) s else take (nat (int (length s) + k)) s)"

section \<open>The random module\<close>

text \<open>
  The ambient generator is made explicit as the tape of its future draws, a finite tape
  being continued by zeros. \<open>random.random() < p/100\<close> reads one draw and keeps only the
  outcome of the comparison, the single thing the program observes of the float.
\<close>

type_synonym rng = "nat list"

fun next_draw :: "rng \<Rightarrow> nat \<times> rng" where
  "next_draw [] = (0, [])"
| "next_draw (d # ds) = (d, ds)"

definition random_lt :: "nat \<Rightarrow> rng \<Rightarrow> bool \<times> rng" where
  "random_lt p g = (case next_draw g of (d, g') \<Rightarrow> (d mod 100 < p, g'))"

definition randbelow :: "nat \<Rightarrow> rng \<Rightarrow> nat \<times> rng" where
  "randbelow n g = (case next_draw g of (d, g') \<Rightarrow> (d mod n, g'))"

text \<open>\<open>pick\<close> is \<open>random.choice\<close> on a sequence the caller has checked to be non-empty;
  \<open>random_choice\<close> is the call itself, which raises on an empty sequence.\<close>

definition pick :: "'a list \<Rightarrow> rng \<Rightarrow> 'a \<times> rng" where
  "pick xs g = (case randbelow (length xs) g of (i, g') \<Rightarrow> (xs ! i, g'))"

definition random_choice :: "'a list \<Rightarrow> rng \<Rightarrow> exn + 'a \<times> rng" where
  "random_choice xs g = (if xs = [] then Inl IndexError else Inr (pick xs g))"

text \<open>\<open>random.shuffle\<close>: for \<open>i\<close> from \<open>len - 1\<close> down to \<open>1\<close>, swap position \<open>i\<close> with a
  drawn position \<open>j \<le> i\<close>.\<close>

fun shuffle_down :: "nat \<Rightarrow> 'a list \<Rightarrow> rng \<Rightarrow> 'a list \<times> rng" where
  "shuffle_down 0 xs g = (xs, g)"
| "shuffle_down (Suc i) xs g =
     (case randbelow (Suc (Suc i)) g of
        (j, g') \<Rightarrow> shuffle_down i (xs[Suc i := xs ! j, j := xs ! Suc i]) g')"

definition random_shuffle :: "'a list \<Rightarrow> rng \<Rightarrow> 'a list \<times> rng" where
  "random_shuffle xs g = shuffle_down (length xs - 1) xs g"

section \<open>The language toolkit\<close>

text \<open>
  The tokenizers, the tagger and the synonym lexicon are library code outside the
  repository: they are parameters. \<open>names_importable\<close> says whether the library's
  tokenize module provides the three names that \<open>paraphrase_simple\<close> imports from it on
  every call; \<open>synsets w\<close> gives, for each synset of \<open>w\<close> in order, the names of its lemmas.
\<close>

record nltk =
  names_importable :: bool
  sent_tokenize :: "string \<Rightarrow> string list"
  word_tokenize :: "string \<Rightarrow> string list"
  pos_tag :: "string list \<Rightarrow> (string \<times> string) list"
  synsets :: "string \<Rightarrow> string list list"

section \<open>paraphrase_simple\<close>

definition synonym_candidates :: "nltk \<Rightarrow> string \<Rightarrow> string list" where
  "synonym_candidates lib w =
     filter (\<lambda>x. py_lower x \<noteq> py_lower w)
       (map (py_replace_char (CHR ''_'') (CHR '' '')) (concat (synsets lib w)))"

text \<open>One pass of the inner loop body: the word appended to \<open>new_words\<close> for a tagged token.\<close>

definition substitute_word :: "nltk \<Rightarrow> string \<Rightarrow> string \<Rightarrow> rng \<Rightarrow> string \<times> rng" where
  "substitute_word lib w t g =
     (if py_startswith t ''NN'' \<or> py_startswith t ''JJ'' then
        (case random_lt 28 g of
           (True, g1) \<Rightarrow>
             (if synsets lib w \<noteq> [] then
                (if synonym_candidates lib w \<noteq> [] then pick (synonym_candidates lib w) g1
                 else (w, g1))
              else (w, g1))
         | (False, g1) \<Rightarrow> (w, g1))
      else (w, g))"

fun substitute_words :: "nltk \<Rightarrow> (string \<times> string) list \<Rightarrow> rng \<Rightarrow> string list \<times> rng" where
  "substitute_words lib [] g = ([], g)"
| "substitute_words lib ((w, t) # tags) g =
     (case substitute_word lib w t g of
        (w', g1) \<Rightarrow> (case substitute_words lib tags g1 of (ws, g2) \<Rightarrow> (w' # ws, g2)))"

fun rewrite_sentences :: "nltk \<Rightarrow> string list \<Rightarrow> rng \<Rightarrow> string list \<times> rng" where
  "rewrite_sentences lib [] g = ([], g)"
| "rewrite_sentences lib (sent # sents) g =
     (case substitute_words lib (pos_tag lib (word_tokenize lib sent)) g of
        (new_words, g1) \<Rightarrow>
          (case rewrite_sentences lib sents g1 of
             (out, g2) \<Rightarrow> (py_join '' '' new_words # out, g2)))"

text \<open>The optional reordering: the second draw is made only when there are at least two
  sentences.\<close>

definition maybe_shuffle :: "string list \<Rightarrow> rng \<Rightarrow> string list \<times> rng" where
  "maybe_shuffle out_sents g =
     (if 1 < length out_sents then
        (case random_lt 30 g of
           (True, g1) \<Rightarrow> random_shuffle out_sents g1
         | (False, g1) \<Rightarrow> (out_sents, g1))
      else (out_sents, g))"

text \<open>\<open>out_sents\<close> as it stands when the final join is reached.\<close>

definition out_sents :: "nltk \<Rightarrow> string \<Rightarrow> rng \<Rightarrow> string list \<times> rng" where
  "out_sents lib text g =
     (case rewrite_sentences lib (sent_tokenize lib text) g of
        (out, g1) \<Rightarrow> maybe_shuffle out g1)"

definition paraphrase_simple :: "nltk \<Rightarrow> string \<Rightarrow> rng \<Rightarrow> exn + string \<times> rng" where
  "paraphrase_simple lib text g =
     (if \<not> names_importable lib then Inl ImportError
      else (case out_sents lib text g of (out, g1) \<Rightarrow> Inr (py_join '' '' out, g1)))"

section \<open>generate_question_from_text\<close>

text \<open>The terms picked from the chosen paragraph (the variable \<open>chosen\<close>).\<close>

definition chosen :: "nltk \<Rightarrow> string \<Rightarrow> string list" where
  "chosen lib para =
     take 3 (dict_fromkeys
       (map fst (filter (\<lambda>(w, t). py_startswith t ''NN'' \<and> 3 < length w)
          (pos_tag lib (word_tokenize lib para)))))"

definition paragraphs :: "string \<Rightarrow> string list" where
  "paragraphs text =
     (let paras = filter (\<lambda>p. py_strip p \<noteq> []) (py_split_on (CHR 0x0A) text)
      in if paras = [] then [text] else paras)"

definition craft_question :: "string list \<Rightarrow> string \<Rightarrow> string" where
  "craft_question terms topic_str =
     (if terms \<noteq> [] then
        ''In a production scenario involving '' @ py_join '', '' (take 2 terms)
        @ '', what are the top non-obvious trade-offs you would evaluate, and how would you mitigate the top two risks? (Tie it into ''
        @ topic_str @ '' context.)''
      else ''Describe an advanced challenge in '' @ topic_str
        @ '' that can arise from the technology discussed in the source, and propose a step-by-step resolution strategy.'')"

definition generate_question_from_text :: "nltk \<Rightarrow> string \<Rightarrow> string \<Rightarrow> rng \<Rightarrow> string \<times> rng" where
  "generate_question_from_text lib text topic_str g =
     (case pick (take 5 (paragraphs text)) g of
        (para, g1) \<Rightarrow> (craft_question (chosen lib para) topic_str, g1))"

section \<open>fetch_text_from_url\<close>

text \<open>
  The HTTP client and the HTML parser are library code: parameters that either raise or
  return. A parsed document is kept as what the function reads from it: whether it has
  an \<open>article\<close> element, with the stripped text of each paragraph inside the first one,
  and the stripped text of every paragraph of the document.
\<close>

record response =
  status_code :: nat
  body :: string

record soup =
  article :: "string list option"
  all_paras :: "string list"

record web =
  requests_get :: "string \<Rightarrow> exn + response"
  html_parse :: "string \<Rightarrow> exn + soup"

definition raise_for_status :: "response \<Rightarrow> exn + unit" where
  "raise_for_status resp =
     (if 400 \<le> status_code resp \<and> status_code resp < 600 then Inl (HTTPError (status_code resp))
      else Inr ())"

definition clip_text :: "string \<Rightarrow> int \<Rightarrow> string" where
  "clip_text text max_chars =
     (if max_chars < int (length text) then py_slice_to text max_chars else text)"

definition page_text :: "soup \<Rightarrow> string" where
  "page_text doc =
     (case article doc of
        Some ps \<Rightarrow> py_join '' '' ps
      | None \<Rightarrow> py_join '' '' (all_paras doc))"

text \<open>The body of the \<open>try\<close> block.\<close>

definition fetch_body :: "web \<Rightarrow> string \<Rightarrow> int \<Rightarrow> exn + string" where
  "fetch_body w url max_chars =
     (case requests_get w url of
        Inl e \<Rightarrow> Inl e
      | Inr resp \<Rightarrow>
          (case raise_for_status resp of
             Inl e \<Rightarrow> Inl e
           | Inr _ \<Rightarrow>
               (case html_parse w (body resp) of
                  Inl e \<Rightarrow> Inl e
                | Inr doc \<Rightarrow> Inr (clip_text (page_text doc) max_chars))))"

text \<open>The handler catches every exception of the body and returns \<open>None\<close>.\<close>

definition fetch_text_from_url :: "web \<Rightarrow> string \<Rightarrow> int \<Rightarrow> exn + string option" where
  "fetch_text_from_url w url max_chars =
     (case fetch_body w url max_chars of
        Inl e \<Rightarrow> Inr None
      | Inr text \<Rightarrow> Inr (Some text))"

section \<open>The Generate tab: seed corpus\<close>

definition parse_urls :: "string \<Rightarrow> string list" where
  "parse_urls extra_urls =
     map py_strip (filter (\<lambda>u. py_strip u \<noteq> [])
       (if extra_urls \<noteq> [] then py_splitlines extra_urls else []))"

definition default_lookup :: "string \<rightharpoonup> string list" where
  "default_lookup =
     [''devops'' \<mapsto> [''https://aws.amazon.com/devops/what-is-devops/''],
      ''cloud'' \<mapsto> [''https://azure.microsoft.com/en-us/overview/what-is-cloud-computing/''],
      ''rpa'' \<mapsto> [''https://www.uipath.com/rpa/robotic-process-automation'']]"

definition default_urls :: "string \<Rightarrow> string list" where
  "default_urls key = (case default_lookup key of None \<Rightarrow> [] | Some us \<Rightarrow> us)"

text \<open>The two fetch loops: a pair is appended when the fetched value is truthy, that is
  neither \<open>None\<close> nor the empty string.\<close>

fun fetch_seeds :: "web \<Rightarrow> string list \<Rightarrow> (string \<times> string) list \<Rightarrow> exn + (string \<times> string) list" where
  "fetch_seeds w [] seed_texts = Inr seed_texts"
| "fetch_seeds w (u # us) seed_texts =
     (case fetch_text_from_url w u 2000 of
        Inl e \<Rightarrow> Inl e
      | Inr None \<Rightarrow> fetch_seeds w us seed_texts
      | Inr (Some t) \<Rightarrow>
          (if t \<noteq> [] then fetch_seeds w us (seed_texts @ [(u, t)])
           else fetch_seeds w us seed_texts))"

definition fallback_text :: "string \<Rightarrow> string" where
  "fallback_text topic_str =
     ''This is a fallback paragraph about '' @ topic_str
     @ ''. Focus on real-world constraints, scaling, security, and maintainability.''"

definition or_local_fallback :: "string \<Rightarrow> (string \<times> string) list \<Rightarrow> (string \<times> string) list" where
  "or_local_fallback topic_str seed_texts =
     (if seed_texts = [] then [(''local_fallback'', fallback_text topic_str)] else seed_texts)"

definition build_seed_texts :: "web \<Rightarrow> string \<Rightarrow> string \<Rightarrow> exn + (string \<times> string) list" where
  "build_seed_texts w topic_str extra_urls =
     (case fetch_seeds w (parse_urls extra_urls) [] of
        Inl e \<Rightarrow> Inl e
      | Inr seed_texts \<Rightarrow>
          (if seed_texts = [] then
             (case py_split (py_lower topic_str) of
                [] \<Rightarrow> Inl IndexError
              | key # _ \<Rightarrow>
                  (case fetch_seeds w (default_urls key) seed_texts of
                     Inl e \<Rightarrow> Inl e
                   | Inr seed_texts' \<Rightarrow> Inr (or_local_fallback topic_str seed_texts')))
           else Inr (or_local_fallback topic_str seed_texts)))"

section \<open>The Generate tab: question loop and batch inserts\<close>

record question =
  interview_id :: "nat option"
  topic :: string
  q_text :: string
  source_url :: string

text \<open>
  The questions table is a service outside the repository. One \<open>insert(...).execute()\<close>
  either raises, or returns a response whose status the loop does not read: \<open>Stored\<close>
  is a response with a success status and the rows written, \<open>Refused c\<close> a response
  with failure status \<open>c\<close> and nothing written. The service is a parameter that answers a
  call from the calls made so far and the batch handed over.
\<close>

datatype insert_result = Stored | Refused nat | Raised exn

type_synonym insert_log = "(question list \<times> insert_result) list"

type_synonym questions_table = "insert_log \<Rightarrow> question list \<Rightarrow> insert_result"

fun is_raised :: "insert_result \<Rightarrow> bool" where
  "is_raised (Raised e) = True"
| "is_raised _ = False"

text \<open>One pass of the loop body. It returns the exception that left it, if any, the
  pending \<open>saved_qs\<close>, the insert calls made so far and the generator.\<close>

definition loop_body ::
  "nltk \<Rightarrow> questions_table \<Rightarrow> nat option \<Rightarrow> string \<Rightarrow> (string \<times> string) list
   \<Rightarrow> question list \<Rightarrow> insert_log \<Rightarrow> rng \<Rightarrow> exn option \<times> question list \<times> insert_log \<times> rng" where
  "loop_body lib tbl iid topic_str seed_texts saved_qs log g =
     (case random_choice seed_texts g of
        Inl e \<Rightarrow> (Some e, saved_qs, log, g)
      | Inr ((src_url, text), g1) \<Rightarrow>
          (case generate_question_from_text lib text topic_str g1 of
             (q0, g2) \<Rightarrow>
               (case paraphrase_simple lib q0 g2 of
                  Inl e \<Rightarrow> (Some e, saved_qs, log, g2)
                | Inr (q, g3) \<Rightarrow>
                    (let saved = saved_qs @ [\<lparr>interview_id = iid, topic = topic_str,
                                              q_text = q, source_url = src_url\<rparr>]
                     in if 15 \<le> length saved then
                          (case tbl log saved of
                             Raised e \<Rightarrow> (Some e, saved, log @ [(saved, Raised e)], g3)
                           | r \<Rightarrow> (None, [], log @ [(saved, r)], g3))
                        else (None, saved, log, g3)))))"

text \<open>The loop over \<open>range(n_q)\<close>, with \<open>k\<close> passes left; an exception ends it.\<close>

fun question_loop ::
  "nltk \<Rightarrow> questions_table \<Rightarrow> nat option \<Rightarrow> string \<Rightarrow> (string \<times> string) list \<Rightarrow> nat
   \<Rightarrow> question list \<Rightarrow> insert_log \<Rightarrow> rng \<Rightarrow> exn option \<times> question list \<times> insert_log \<times> rng" where
  "question_loop lib tbl iid topic_str seed_texts 0 saved_qs log g = (None, saved_qs, log, g)"
| "question_loop lib tbl iid topic_str seed_texts (Suc k) saved_qs log g =
     (case loop_body lib tbl iid topic_str seed_texts saved_qs log g of
        (Some e, st) \<Rightarrow> (Some e, st)
      | (None, saved, log', g') \<Rightarrow> question_loop lib tbl iid topic_str seed_texts k saved log' g')"

text \<open>The whole of lines 214 to 227: the loop, the trailing insert of a non-empty
  \<open>saved_qs\<close>, and the success report of \<open>n_q\<close>. The result is the exception that left
  the block or the reported number, with the insert calls made.\<close>

definition generate_questions ::
  "nltk \<Rightarrow> questions_table \<Rightarrow> nat option \<Rightarrow> string \<Rightarrow> (string \<times> string) list \<Rightarrow> int
   \<Rightarrow> rng \<Rightarrow> (exn + int) \<times> insert_log" where
  "generate_questions lib tbl iid topic_str seed_texts n_q g =
     (case question_loop lib tbl iid topic_str seed_texts (nat n_q) [] [] g of
        (Some e, saved_qs, log, g') \<Rightarrow> (Inl e, log)
      | (None, saved_qs, log, g') \<Rightarrow>
          (if saved_qs \<noteq> [] then
             (case tbl log saved_qs of
                Raised e \<Rightarrow> (Inl e, log @ [(saved_qs, Raised e)])
              | r \<Rightarrow> (Inr n_q, log @ [(saved_qs, r)]))
           else (Inr n_q, log)))"

definition batches :: "insert_log \<Rightarrow> question list list" where
  "batches log = map fst log"


section \<open>Definitions following the specification\<close>

text \<open>First-occurrence deduplication, stated without a dictionary.\<close>

primrec keep_first :: "'a list \<Rightarrow> 'a list" where
  "keep_first [] = []"
| "keep_first (x # xs) = x # filter (\<lambda>y. y \<noteq> x) (keep_first xs)"

text \<open>The specification's term extraction: nouns and adjectives longer than three
  characters, deduplicated in first-seen order, at most three.\<close>

definition spec_extractTerms :: "nltk \<Rightarrow> string \<Rightarrow> string list" where
  "spec_extractTerms lib paragraph =
     take 3 (keep_first
       (map fst (filter (\<lambda>(w, t). (py_startswith t ''NN'' \<or> py_startswith t ''JJ'') \<and> 3 < length w)
          (pos_tag lib (word_tokenize lib paragraph)))))"

text \<open>What the paraphraser may put in the place of a tagged token: the token itself, or,
  for a noun or adjective only, a lemma name of its synsets that differs from it when
  both are lower-cased.\<close>

definition rewrite_ok :: "nltk \<Rightarrow> string \<times> string \<Rightarrow> string \<Rightarrow> bool" where
  "rewrite_ok lib wt w' =
     (case wt of (w, t) \<Rightarrow>
        (if py_startswith t ''NN'' \<or> py_startswith t ''JJ'' then
           w' = w \<or> (w' \<in> set (map (py_replace_char (CHR ''_'') (CHR '' '')) (concat (synsets lib w)))
                      \<and> py_lower w' \<noteq> py_lower w)
         else w' = w))"

text \<open>A URL yields no usable text when the fetch returns \<open>None\<close> or the empty string.\<close>

definition no_text :: "web \<Rightarrow> string \<Rightarrow> bool" where
  "no_text w u = (fetch_text_from_url w u 2000 = Inr None \<or> fetch_text_from_url w u 2000 = Inr (Some []))"




section \<open>A small environment for running the definitions\<close>

definition toy_tag :: "string \<Rightarrow> string" where
  "toy_tag w =
     (if w \<in> set [''fast'', ''scalable''] then ''JJ''
      else if w \<in> set [''systems'', ''clusters''] then ''NNS''
      else if w \<in> set [''Kubernetes''] then ''NNP''
      else ''VBP'')"

definition toy_nltk :: nltk where
  "toy_nltk =
     \<lparr>names_importable = True,
      sent_tokenize = (\<lambda>s. filter (\<lambda>x. x \<noteq> []) (map py_strip (py_split_on (CHR ''.'') s))),
      word_tokenize = py_split,
      pos_tag = map (\<lambda>w. (w, toy_tag w)),
      synsets = (\<lambda>w. if w = ''fast'' then [[''fast'', ''quick'', ''Fast''], [''flying'']] else [])\<rparr>"

text \<open>A web with three pages that parse, one page answering 404, and no other host.\<close>

definition toy_web :: web where
  "toy_web =
     \<lparr>requests_get = (\<lambda>u.
        if u = ''https://ok.example/a'' then Inr \<lparr>status_code = 200, body = ''<p>abc</p>''\<rparr>
        else if u = ''https://ok.example/b''
          then Inr \<lparr>status_code = 200, body = ''<article><p>lead</p><p>more</p></article><p>side</p>''\<rparr>
        else if u = ''https://ok.example/empty'' then Inr \<lparr>status_code = 200, body = ''<div></div>''\<rparr>
        else if u = ''https://missing.example/'' then Inr \<lparr>status_code = 404, body = ''<p>gone</p>''\<rparr>
        else Inl (External ''ConnectionError'')),
      html_parse = (\<lambda>b.
        if b = ''<p>abc</p>'' then Inr \<lparr>article = None, all_paras = [''abc'']\<rparr>
        else if b = ''<article><p>lead</p><p>more</p></article><p>side</p>''
          then Inr \<lparr>article = Some [''lead'', ''more''], all_paras = [''lead'', ''more'', ''side'']\<rparr>
        else if b = ''<div></div>'' then Inr \<lparr>article = None, all_paras = []\<rparr>
        else Inl (External ''ParserError''))\<rparr>"

text \<open>Two questions tables, one that stores every batch and one whose every insert
  raises, and the corpus of the local fallback for the topic \<open>DevOps\<close>.\<close>

definition storing_table :: questions_table where
  "storing_table = (\<lambda>log saved. Stored)"


definition demo_seed :: "(string \<times> string) list" where
  "demo_seed = [(''local_fallback'', fallback_text ''DevOps'')]"

text \<open>The toolkit as it is distributed: its tokenize module provides \<open>sent_tokenize\<close> and
  \<open>word_tokenize\<close> but no \<open>pos_tag\<close> (the tagger is \<open>nltk.pos_tag\<close>, the name line 55
  calls), so the import at the head of \<open>paraphrase_simple\<close> fails.\<close>

definition stock_nltk :: nltk where
  "stock_nltk = toy_nltk\<lparr>names_importable := False\<rparr>"


section \<open>Term extraction and paraphrasing\<close>

lemma fromkeys_keep_first:
  "fromkeys seen xs = seen @ filter (\<lambda>y. y \<notin> set seen) (keep_first xs)"
proof (induction xs arbitrary: seen)
  case Nil
  then show ?case by simp
next
  case (Cons x xs)
  have a: "x \<in> set seen \<Longrightarrow> filter (\<lambda>y. y \<notin> set seen) (filter (\<lambda>y. y \<noteq> x) (keep_first xs))
      = filter (\<lambda>y. y \<notin> set seen) (keep_first xs)"
    by (auto intro: filter_cong)
  have b: "filter (\<lambda>y. y \<notin> set (seen @ [x])) (keep_first xs)
      = filter (\<lambda>y. y \<notin> set seen) (filter (\<lambda>y. y \<noteq> x) (keep_first xs))"
    by (auto intro: filter_cong)
  show ?case using Cons.IH [of seen] Cons.IH [of "seen @ [x]"] a b by simp
qed

lemma set_keep_first: "set (keep_first xs) = set xs"
  by (induction xs) auto

lemma distinct_keep_first: "distinct (keep_first xs)"
  by (induction xs) (auto simp: set_keep_first)

lemma dict_fromkeys_keep_first: "dict_fromkeys xs = keep_first xs"
  by (simp add: dict_fromkeys_def fromkeys_keep_first)

lemma substitute_words_length:
  "substitute_words lib tags g = (ws, g') \<Longrightarrow> length ws = length tags"
  by (induction tags arbitrary: g ws g') (auto split: prod.splits)

lemma length_substitute_words: "length (fst (substitute_words lib tags g)) = length tags"
  using substitute_words_length [of lib tags g] by (cases "substitute_words lib tags g") simp

lemma rewrite_sentences_length:
  "rewrite_sentences lib sents g = (out, g') \<Longrightarrow> length out = length sents"
  by (induction sents arbitrary: g out g') (auto split: prod.splits)

lemma length_rewrite_sentences: "length (fst (rewrite_sentences lib sents g)) = length sents"
  using rewrite_sentences_length [of lib sents g] by (cases "rewrite_sentences lib sents g") simp

lemma randbelow_less: "0 < n \<Longrightarrow> fst (randbelow n g) < n"
  by (simp add: randbelow_def split: prod.splits)

lemma mset_shuffle_down: "i < length xs \<Longrightarrow> mset (fst (shuffle_down i xs g)) = mset xs"
proof (induction i arbitrary: xs g)
  case 0
  then show ?case by simp
next
  case (Suc i)
  obtain j g' where r: "randbelow (Suc (Suc i)) g = (j, g')" by (cases "randbelow (Suc (Suc i)) g")
  have "j < Suc (Suc i)" using randbelow_less [of "Suc (Suc i)" g] r by simp
  then have j: "j < length xs" using Suc.prems by simp
  have "mset (xs[Suc i := xs ! j, j := xs ! Suc i]) = mset xs"
    using mset_swap [of j xs "Suc i"] Suc.prems j by simp
  moreover have "i < length (xs[Suc i := xs ! j, j := xs ! Suc i])" using Suc.prems by simp
  ultimately show ?case using Suc.IH [of "xs[Suc i := xs ! j, j := xs ! Suc i]" g'] r by simp
qed

lemma mset_random_shuffle: "mset (fst (random_shuffle xs g)) = mset xs"
  by (cases "xs = []") (simp_all add: random_shuffle_def mset_shuffle_down)

lemma mset_maybe_shuffle: "mset (fst (maybe_shuffle out g)) = mset out"
  by (simp add: maybe_shuffle_def mset_random_shuffle split: prod.splits bool.splits)

lemma length_maybe_shuffle: "length (fst (maybe_shuffle out g)) = length out"
  using mset_maybe_shuffle [of out g] by (metis size_mset)

lemma pick_mem: "xs \<noteq> [] \<Longrightarrow> fst (pick xs g) \<in> set xs"
  using randbelow_less [of "length xs" g]
  by (auto simp: pick_def split: prod.splits)

lemma substitute_word_ok: "rewrite_ok lib (w, t) (fst (substitute_word lib w t g))"
proof -
  have "synonym_candidates lib w \<noteq> [] \<Longrightarrow>
      fst (pick (synonym_candidates lib w) g') \<in> set (synonym_candidates lib w)" for g'
    by (rule pick_mem)
  then show ?thesis
    by (auto simp: rewrite_ok_def substitute_word_def synonym_candidates_def
        split: prod.splits bool.splits)
qed

lemma substitute_words_ok:
  "list_all2 (rewrite_ok lib) tags (fst (substitute_words lib tags g))"
proof (induction tags arbitrary: g)
  case Nil
  then show ?case by simp
next
  case (Cons wt tags)
  obtain w t where wt: "wt = (w, t)" by (cases wt)
  obtain w' g1 where s: "substitute_word lib w t g = (w', g1)" by (cases "substitute_word lib w t g")
  have "rewrite_ok lib (w, t) w'" using substitute_word_ok [of lib w t g] s by simp
  then show ?case using Cons.IH [of g1] wt s by (auto split: prod.splits)
qed

lemma rewrite_sentences_nth:
  "k < length sents \<Longrightarrow>
   \<exists>g'. fst (rewrite_sentences lib sents g) ! k
        = py_join '' '' (fst (substitute_words lib (pos_tag lib (word_tokenize lib (sents ! k))) g'))"
proof (induction sents arbitrary: g k)
  case Nil
  then show ?case by simp
next
  case (Cons sent sents)
  obtain ws g1 where a: "substitute_words lib (pos_tag lib (word_tokenize lib sent)) g = (ws, g1)"
    by (cases "substitute_words lib (pos_tag lib (word_tokenize lib sent)) g")
  obtain out g2 where b: "rewrite_sentences lib sents g1 = (out, g2)"
    by (cases "rewrite_sentences lib sents g1")
  show ?case
  proof (cases k)
    case 0
    have "fst (substitute_words lib (pos_tag lib (word_tokenize lib sent)) g) = ws" using a by simp
    then show ?thesis using 0 a b by (intro exI [of _ g]) simp
  next
    case (Suc j)
    then have "j < length sents" using Cons.prems by simp
    from Cons.IH [OF this, of g1] show ?thesis using Suc a b by simp
  qed
qed

text \<open>
  Claim C6. In every sentence of every input text, the words that \<open>paraphrase_simple\<close>
  joins are position by position related to the tagged tokens by \<open>rewrite_ok\<close>: a token
  whose tag starts with neither \<open>NN\<close> nor \<open>JJ\<close> is kept as it is, and a noun or adjective
  is either kept or replaced by a lemma name of its synsets whose lower-cased form differs
  from the lower-cased token.
\<close>

theorem paraphrase_rewrites_only_nouns_adjectives:
  assumes "k < length (sent_tokenize lib text)"
  shows "\<exists>g'. fst (rewrite_sentences lib (sent_tokenize lib text) g) ! k
           = py_join '' '' (fst (substitute_words lib
               (pos_tag lib (word_tokenize lib (sent_tokenize lib text ! k))) g'))
         \<and> list_all2 (rewrite_ok lib)
             (pos_tag lib (word_tokenize lib (sent_tokenize lib text ! k)))
             (fst (substitute_words lib
               (pos_tag lib (word_tokenize lib (sent_tokenize lib text ! k))) g'))"
  using rewrite_sentences_nth [OF assms, of lib g] substitute_words_ok by blast

text \<open>
  Once the imported names exist: the list \<open>out_sents\<close> that reaches the final join has as
  many sentences as the sentence tokenizer returned for the text and is a permutation of
  the per-sentence rewrites, the call returns for every text, and on the empty string,
  which the sentence tokenizer splits into no sentence, it returns the empty string.
\<close>

lemma out_sents_count:
  "length (fst (out_sents lib text g)) = length (sent_tokenize lib text)
   \<and> mset (fst (out_sents lib text g))
       = mset (fst (rewrite_sentences lib (sent_tokenize lib text) g))
   \<and> (names_importable lib \<longrightarrow>
        (\<exists>r. paraphrase_simple lib text g = Inr r)
        \<and> (sent_tokenize lib [] = [] \<longrightarrow> paraphrase_simple lib [] g = Inr ([], g)))"
proof -
  obtain out g1 where a: "rewrite_sentences lib (sent_tokenize lib text) g = (out, g1)"
    by (cases "rewrite_sentences lib (sent_tokenize lib text) g")
  have l: "length out = length (sent_tokenize lib text)"
    using a by (rule rewrite_sentences_length)
  have 1: "length (fst (out_sents lib text g)) = length (sent_tokenize lib text)"
    using a l by (simp add: out_sents_def length_maybe_shuffle)
  have 2: "mset (fst (out_sents lib text g))
       = mset (fst (rewrite_sentences lib (sent_tokenize lib text) g))"
    using a by (simp add: out_sents_def mset_maybe_shuffle)
  have 3: "names_importable lib \<Longrightarrow> \<exists>r. paraphrase_simple lib text g = Inr r"
    by (simp add: paraphrase_simple_def split: prod.splits)
  have 4: "names_importable lib \<Longrightarrow> sent_tokenize lib [] = [] \<Longrightarrow>
      paraphrase_simple lib [] g = Inr ([], g)"
    by (simp add: paraphrase_simple_def out_sents_def maybe_shuffle_def)
  show ?thesis using 1 2 3 4 by blast
qed

lemma stock_not_importable: "\<not> names_importable stock_nltk"
  by (simp add: stock_nltk_def)

text \<open>
  Claim C5. The claim fails on the code. \<open>paraphrase_simple\<close> imports \<open>pos_tag\<close> from the
  tokenize module before anything else; where that module has no such name, as in the
  distributed toolkit, the call raises \<open>ImportError\<close> for every text, the empty string
  included, and no sentence list is produced.
\<close>

theorem paraphrase_import_failure:
  "\<not> names_importable lib \<Longrightarrow> paraphrase_simple lib text g = Inl ImportError"
  by (simp add: paraphrase_simple_def)

theorem paraphrase_import_failure_witness:
  "\<not> names_importable stock_nltk \<and> paraphrase_simple stock_nltk [] [7] = Inl ImportError"
  using stock_not_importable paraphrase_import_failure [OF stock_not_importable, of "[]" "[7]"]
  by simp


text \<open>
  Claim C3, as amended. The chosen terms are the tokens whose tag starts with \<open>NN\<close> (a
  noun tag, common or proper; adjectives are not candidates) and whose length exceeds 3,
  deduplicated in first-seen order and cut to the first 3; they are pairwise distinct.
\<close>

theorem chosen_takes_nouns_only:
  "chosen lib para
     = take 3 (keep_first (map fst (filter (\<lambda>(w, t). py_startswith t ''NN'' \<and> 3 < length w)
         (pos_tag lib (word_tokenize lib para)))))
   \<and> length (chosen lib para) \<le> 3
   \<and> distinct (chosen lib para)"
proof -
  have "distinct (take 3 (keep_first xs))" for xs :: "string list"
    by (simp add: distinct_keep_first)
  then show ?thesis by (simp add: chosen_def dict_fromkeys_keep_first)
qed

text \<open>
  Claim C3 as stated fails on a paragraph with adjectives: the specification's extraction
  returns \<open>scalable\<close> and \<open>fast\<close>, tagged \<open>JJ\<close>, the code returns the noun alone.
\<close>

theorem extractTerms_counterexample:
  "chosen toy_nltk ''scalable clusters run fast'' = [''clusters'']
   \<and> spec_extractTerms toy_nltk ''scalable clusters run fast'' = [''scalable'', ''clusters'', ''fast'']"
  by code_simp

theorem chosen_takes_nouns_only_witness:
  "chosen toy_nltk ''Kubernetes clusters run fast clusters'' = [''Kubernetes'', ''clusters'']
   \<and> distinct (chosen toy_nltk ''Kubernetes clusters run fast clusters'')"
proof -
  have "chosen toy_nltk ''Kubernetes clusters run fast clusters'' = [''Kubernetes'', ''clusters'']"
    by code_simp
  then show ?thesis
    using chosen_takes_nouns_only [of toy_nltk "''Kubernetes clusters run fast clusters''"] by simp
qed



theorem paraphrase_rewrites_only_nouns_adjectives_witness:
  "0 < length (sent_tokenize toy_nltk ''fast systems scale. Kubernetes clusters run'')
   \<and> (\<exists>g'. fst (rewrite_sentences toy_nltk
               (sent_tokenize toy_nltk ''fast systems scale. Kubernetes clusters run'') [0, 0, 50]) ! 0
           = py_join '' '' (fst (substitute_words toy_nltk
               [(''fast'', ''JJ''), (''systems'', ''NNS''), (''scale'', ''VBP'')] g'))
         \<and> list_all2 (rewrite_ok toy_nltk)
             [(''fast'', ''JJ''), (''systems'', ''NNS''), (''scale'', ''VBP'')]
             (fst (substitute_words toy_nltk
               [(''fast'', ''JJ''), (''systems'', ''NNS''), (''scale'', ''VBP'')] g')))"
proof -
  have a: "0 < length (sent_tokenize toy_nltk ''fast systems scale. Kubernetes clusters run'')"
    by code_simp
  have b: "pos_tag toy_nltk (word_tokenize toy_nltk
      (sent_tokenize toy_nltk ''fast systems scale. Kubernetes clusters run'' ! 0))
      = [(''fast'', ''JJ''), (''systems'', ''NNS''), (''scale'', ''VBP'')]"
    by code_simp
  show ?thesis
    using a paraphrase_rewrites_only_nouns_adjectives [OF a, of "[0, 0, 50]"]
    unfolding b by simp
qed

section \<open>Fetching and the seed corpus\<close>

lemma clip_text_take: "0 \<le> m \<Longrightarrow> clip_text text m = take (nat m) text"
  by (simp add: clip_text_def py_slice_to_def)

lemma fetch_never_raises: "fetch_text_from_url w url m \<noteq> Inl e"
  by (simp add: fetch_text_from_url_def split: sum.splits)

lemma fetch_cases:
  "no_text w u \<or> (\<exists>t. fetch_text_from_url w u 2000 = Inr (Some t) \<and> t \<noteq> [])"
proof (cases "fetch_text_from_url w u 2000")
  case (Inl e)
  then show ?thesis using fetch_never_raises by blast
next
  case (Inr r)
  then show ?thesis by (cases r) (simp_all add: no_text_def)
qed

lemma fetch_seeds_skip: "no_text w u \<Longrightarrow> fetch_seeds w (u # us) acc = fetch_seeds w us acc"
  unfolding no_text_def by (erule disjE) simp_all

lemma fetch_seeds_keep:
  "fetch_text_from_url w u 2000 = Inr (Some t) \<Longrightarrow> t \<noteq> [] \<Longrightarrow>
   fetch_seeds w (u # us) acc = fetch_seeds w us (acc @ [(u, t)])"
  by simp

lemma not_no_text: "fetch_text_from_url w u 2000 = Inr (Some t) \<Longrightarrow> t \<noteq> [] \<Longrightarrow> \<not> no_text w u"
  by (simp add: no_text_def)

lemma fetch_seeds_result:
  "\<exists>new. fetch_seeds w us acc = Inr (acc @ new) \<and> (new = [] \<longleftrightarrow> (\<forall>u \<in> set us. no_text w u))"
proof (induction us arbitrary: acc)
  case Nil
  then show ?case by simp
next
  case (Cons u us)
  from fetch_cases [of w u] show ?case
  proof
    assume n: "no_text w u"
    obtain new where "fetch_seeds w us acc = Inr (acc @ new)"
      "new = [] \<longleftrightarrow> (\<forall>u \<in> set us. no_text w u)"
      using Cons.IH [of acc] by blast
    then show ?thesis using n fetch_seeds_skip [OF n, of us acc] by (intro exI [of _ new]) simp
  next
    assume "\<exists>t. fetch_text_from_url w u 2000 = Inr (Some t) \<and> t \<noteq> []"
    then obtain t where t: "fetch_text_from_url w u 2000 = Inr (Some t)" "t \<noteq> []" by blast
    obtain new where "fetch_seeds w us (acc @ [(u, t)]) = Inr ((acc @ [(u, t)]) @ new)"
      using Cons.IH [of "acc @ [(u, t)]"] by blast
    then have "fetch_seeds w (u # us) acc = Inr (acc @ ((u, t) # new))"
      using fetch_seeds_keep [OF t, of us acc] by simp
    then show ?thesis using not_no_text [OF t] by (intro exI [of _ "(u, t) # new"]) simp
  qed
qed

lemma fetch_seeds_no_text:
  "\<forall>u \<in> set us. no_text w u \<Longrightarrow> fetch_seeds w us acc = Inr acc"
  using fetch_seeds_result [of w us acc] by auto

lemma fetch_seeds_empty_iff:
  "fetch_seeds w us [] = Inr [] \<longleftrightarrow> (\<forall>u \<in> set us. no_text w u)"
  using fetch_seeds_result [of w us "[]"] by auto

lemma isspace_lower_char: "py_isspace (lower_char c) = py_isspace c"
proof -
  define n where "n = (of_char c :: nat)"
  show ?thesis
  proof (cases "(65 \<le> n \<and> n \<le> 90) \<or> (192 \<le> n \<and> n \<le> 214) \<or> (216 \<le> n \<and> n \<le> 222)")
    case True
    then have l: "lower_char c = char_of (n + 32)" by (simp add: lower_char_def n_def Let_def)
    have "(n + 32) mod 256 = n + 32" using True by auto
    then have "(of_char (lower_char c) :: nat) = n + 32" using l by simp
    moreover have "n + 32 \<notin> {9, 10, 11, 12, 13, 28, 29, 30, 31, 32, 133, 160}" using True by auto
    moreover have "n \<notin> {9, 10, 11, 12, 13, 28, 29, 30, 31, 32, 133, 160}" using True by auto
    ultimately show ?thesis unfolding py_isspace_def n_def by metis
  next
    case False
    then have "lower_char c = c" unfolding lower_char_def n_def Let_def by presburger
    then show ?thesis by simp
  qed
qed

lemma split_ws_empty_iff: "split_ws cur s = [] \<longleftrightarrow> cur = [] \<and> (\<forall>c \<in> set s. py_isspace c)"
  by (induction s arbitrary: cur) auto

lemma py_split_lower_empty_iff:
  "py_split (py_lower s) = [] \<longleftrightarrow> (\<forall>c \<in> set s. py_isspace c)"
  by (simp add: py_split_def py_lower_def split_ws_empty_iff isspace_lower_char)


text \<open>
  Claim C8. For every URL and every \<open>max_chars\<close> the fetch returns and never raises: its
  value is \<open>None\<close> when the request raises, when the status is a client or server error,
  or when parsing raises; otherwise it is the text of the paragraphs of the article
  element when there is one, else of all paragraphs of the page, joined by single spaces
  and cut by the slice \<open>text[:max_chars]\<close>. For a character count \<open>max_chars \<ge> 0\<close>, as in
  every call of the program (2000, 3000, 4000), the slice keeps the first \<open>max_chars\<close>
  characters, so that a returned text is never longer than \<open>max_chars\<close>.
\<close>

theorem fetch_text_from_url_result:
  "(\<exists>r. fetch_text_from_url w url max_chars = Inr r)
   \<and> fetch_text_from_url w url max_chars =
       (case requests_get w url of
          Inl e \<Rightarrow> Inr None
        | Inr resp \<Rightarrow>
            (if 400 \<le> status_code resp \<and> status_code resp < 600 then Inr None
             else (case html_parse w (body resp) of
                     Inl e \<Rightarrow> Inr None
                   | Inr doc \<Rightarrow>
                       Inr (Some (clip_text
                         (case article doc of
                            Some ps \<Rightarrow> py_join '' '' ps
                          | None \<Rightarrow> py_join '' '' (all_paras doc))
                         max_chars)))))
   \<and> (0 \<le> max_chars \<longrightarrow>
        (\<forall>s. clip_text s max_chars = take (nat max_chars) s)
        \<and> (\<forall>t. fetch_text_from_url w url max_chars = Inr (Some t) \<longrightarrow> int (length t) \<le> max_chars))"
proof -
  have 1: "\<exists>r. fetch_text_from_url w url max_chars = Inr r"
    by (simp add: fetch_text_from_url_def split: sum.splits)
  have 2: "fetch_text_from_url w url max_chars =
       (case requests_get w url of
          Inl e \<Rightarrow> Inr None
        | Inr resp \<Rightarrow>
            (if 400 \<le> status_code resp \<and> status_code resp < 600 then Inr None
             else (case html_parse w (body resp) of
                     Inl e \<Rightarrow> Inr None
                   | Inr doc \<Rightarrow>
                       Inr (Some (clip_text
                         (case article doc of
                            Some ps \<Rightarrow> py_join '' '' ps
                          | None \<Rightarrow> py_join '' '' (all_paras doc))
                         max_chars)))))"
    by (simp add: fetch_text_from_url_def fetch_body_def raise_for_status_def page_text_def
        split: sum.splits option.splits)
  have 3: "int (length t) \<le> max_chars"
    if p: "0 \<le> max_chars" and q: "fetch_text_from_url w url max_chars = Inr (Some t)" for t
  proof -
    obtain s where "t = clip_text s max_chars"
      using q
      by (auto simp: fetch_text_from_url_def fetch_body_def split: sum.splits)
    then show ?thesis using p by (simp add: clip_text_take)
  qed
  have 4: "clip_text s max_chars = take (nat max_chars) s" if "0 \<le> max_chars" for s
    using that by (rule clip_text_take)
  show ?thesis using 1 2 3 4 by blast
qed

theorem fetch_text_from_url_result_witness:
  "(0::int) \<le> 2000
   \<and> fetch_text_from_url toy_web ''https://ok.example/b'' 2000 = Inr (Some ''lead more'')
   \<and> int (length ''lead more'') \<le> 2000
   \<and> fetch_text_from_url toy_web ''https://ok.example/b'' 7 = Inr (Some ''lead mo'')
   \<and> int (length ''lead mo'') \<le> 7
   \<and> fetch_text_from_url toy_web ''https://missing.example/'' 2000 = Inr None"
proof -
  have a: "fetch_text_from_url toy_web ''https://ok.example/b'' 2000 = Inr (Some ''lead more'')"
    by code_simp
  have b: "fetch_text_from_url toy_web ''https://ok.example/b'' 7 = Inr (Some ''lead mo'')"
    by code_simp
  have c: "fetch_text_from_url toy_web ''https://missing.example/'' 2000 = Inr None"
    by code_simp
  have z: "(0::int) \<le> 2000" "(0::int) \<le> 7" by simp_all
  have "int (length ''lead more'') \<le> 2000"
    using fetch_text_from_url_result [of toy_web "''https://ok.example/b''" 2000] a z(1) by blast
  moreover have "int (length ''lead mo'') \<le> 7"
    using fetch_text_from_url_result [of toy_web "''https://ok.example/b''" 7] b z(2) by blast
  ultimately show ?thesis using a b c by simp
qed

text \<open>
  Claim C7. When no caller-supplied URL yields text, the lower-cased topic has a first
  word, and that word is no key of the default map or its default URLs yield no text
  either, the seed corpus is the single pair of \<open>local_fallback\<close> and the templated
  paragraph about the topic.
\<close>

theorem local_fallback_only:
  assumes "\<forall>u \<in> set (parse_urls extra_urls). no_text w u"
    and "py_split (py_lower topic_str) = key # rest"
    and "default_lookup key = None \<or> (\<forall>u \<in> set (default_urls key). no_text w u)"
  shows "build_seed_texts w topic_str extra_urls
         = Inr [(''local_fallback'',
                 ''This is a fallback paragraph about '' @ topic_str
                 @ ''. Focus on real-world constraints, scaling, security, and maintainability.'')]"
proof -
  have a: "fetch_seeds w (parse_urls extra_urls) [] = Inr []"
    using assms(1) by (rule fetch_seeds_no_text)
  have "\<forall>u \<in> set (default_urls key). no_text w u"
    using assms(3) by (auto simp: default_urls_def)
  then have b: "fetch_seeds w (default_urls key) [] = Inr []"
    by (rule fetch_seeds_no_text)
  show ?thesis
    using a b assms(2)
    by (simp add: build_seed_texts_def or_local_fallback_def fallback_text_def)
qed

text \<open>
  Claim C9. Building the seed corpus raises \<open>IndexError\<close> exactly when no caller-supplied
  URL yields text and the topic consists of whitespace characters only (the empty topic
  included); it raises nothing else, and whenever it returns the corpus is non-empty.
\<close>

theorem blank_topic_raises_IndexError:
  "(build_seed_texts w topic_str extra_urls = Inl IndexError)
     = ((\<forall>u \<in> set (parse_urls extra_urls). no_text w u) \<and> (\<forall>c \<in> set topic_str. py_isspace c))
   \<and> (\<forall>e. build_seed_texts w topic_str extra_urls = Inl e \<longrightarrow> e = IndexError)
   \<and> (\<forall>seed_texts. build_seed_texts w topic_str extra_urls = Inr seed_texts \<longrightarrow> seed_texts \<noteq> [])"
proof -
  obtain new where n: "fetch_seeds w (parse_urls extra_urls) [] = Inr new"
    "new = [] \<longleftrightarrow> (\<forall>u \<in> set (parse_urls extra_urls). no_text w u)"
    using fetch_seeds_result [of w "parse_urls extra_urls" "[]"] by auto
  show ?thesis
  proof (cases "new = []")
    case False
    then show ?thesis using n by (auto simp: build_seed_texts_def or_local_fallback_def)
  next
    case True
    show ?thesis
    proof (cases "py_split (py_lower topic_str)")
      case Nil
      then have "\<forall>c \<in> set topic_str. py_isspace c" by (simp add: py_split_lower_empty_iff)
      then show ?thesis using n True Nil by (simp add: build_seed_texts_def)
    next
      case (Cons key rest)
      then have c: "\<not> (\<forall>c \<in> set topic_str. py_isspace c)"
        using py_split_lower_empty_iff [of topic_str] by simp
      obtain new' where "fetch_seeds w (default_urls key) [] = Inr new'"
        using fetch_seeds_result [of w "default_urls key" "[]"] by auto
      then have "build_seed_texts w topic_str extra_urls = Inr (or_local_fallback topic_str new')"
        using n True Cons by (simp add: build_seed_texts_def)
      then show ?thesis using c by (auto simp: or_local_fallback_def)
    qed
  qed
qed

theorem local_fallback_only_witness:
  "parse_urls (''https://missing.example/'' @ [CHR 0x0D, CHR 0x0A] @ ''   '' @ [CHR 0x0A]
       @ '' https://down.example/  '')
     = [''https://missing.example/'', ''https://down.example/'']
   \<and> no_text toy_web ''https://missing.example/''
   \<and> no_text toy_web ''https://down.example/''
   \<and> py_split (py_lower ''Kubernetes basics'') = [''kubernetes'', ''basics'']
   \<and> default_lookup ''kubernetes'' = None
   \<and> build_seed_texts toy_web ''Kubernetes basics''
         (''https://missing.example/'' @ [CHR 0x0D, CHR 0x0A] @ ''   '' @ [CHR 0x0A]
          @ '' https://down.example/  '')
       = Inr [(''local_fallback'',
               ''This is a fallback paragraph about Kubernetes basics. Focus on real-world constraints, scaling, security, and maintainability.'')]
   \<and> py_split (py_lower ''DevOps'') = [''devops'']
   \<and> default_urls ''devops'' = [''https://aws.amazon.com/devops/what-is-devops/'']
   \<and> no_text toy_web ''https://aws.amazon.com/devops/what-is-devops/''
   \<and> build_seed_texts toy_web ''DevOps'' []
       = Inr [(''local_fallback'',
               ''This is a fallback paragraph about DevOps. Focus on real-world constraints, scaling, security, and maintainability.'')]"
proof -
  let ?x = "''https://missing.example/'' @ [CHR 0x0D, CHR 0x0A] @ ''   '' @ [CHR 0x0A]
       @ '' https://down.example/  ''"
  have a: "parse_urls ?x = [''https://missing.example/'', ''https://down.example/'']"
    by code_simp
  have b: "no_text toy_web ''https://missing.example/''" by code_simp
  have c: "no_text toy_web ''https://down.example/''" by code_simp
  have d: "py_split (py_lower ''Kubernetes basics'') = [''kubernetes'', ''basics'']" by code_simp
  have e: "default_lookup ''kubernetes'' = None" by code_simp
  have f: "\<forall>u \<in> set (parse_urls ?x). no_text toy_web u" using a b c by simp
  have g: "build_seed_texts toy_web ''Kubernetes basics'' ?x
       = Inr [(''local_fallback'',
               ''This is a fallback paragraph about '' @ ''Kubernetes basics''
               @ ''. Focus on real-world constraints, scaling, security, and maintainability.'')]"
    using f d e
    by (intro local_fallback_only [where key = "''kubernetes''" and rest = "[''basics'']"]) simp_all
  have h: "py_split (py_lower ''DevOps'') = [''devops'']" by code_simp
  have i: "default_urls ''devops'' = [''https://aws.amazon.com/devops/what-is-devops/'']"
    by code_simp
  have j: "no_text toy_web ''https://aws.amazon.com/devops/what-is-devops/''" by code_simp
  have k: "parse_urls [] = []" by code_simp
  have l: "build_seed_texts toy_web ''DevOps'' []
       = Inr [(''local_fallback'',
               ''This is a fallback paragraph about '' @ ''DevOps''
               @ ''. Focus on real-world constraints, scaling, security, and maintainability.'')]"
    using h i j k
    by (intro local_fallback_only [where key = "''devops''" and rest = "[]"]) simp_all
  show ?thesis using a b c d e g h i j l by simp
qed

theorem blank_topic_raises_IndexError_witness:
  "parse_urls ''https://down.example/'' = [''https://down.example/'']
   \<and> no_text toy_web ''https://down.example/''
   \<and> list_all py_isspace ''  ''
   \<and> build_seed_texts toy_web ''  '' ''https://down.example/'' = Inl IndexError
   \<and> build_seed_texts toy_web [] [] = Inl IndexError"
proof -
  have a: "parse_urls ''https://down.example/'' = [''https://down.example/'']" by code_simp
  have b: "no_text toy_web ''https://down.example/''" by code_simp
  have c: "list_all py_isspace ''  ''" by code_simp
  have d: "parse_urls [] = []" by code_simp
  have "build_seed_texts toy_web ''  '' ''https://down.example/'' = Inl IndexError"
    using blank_topic_raises_IndexError [of toy_web "''  ''" "''https://down.example/''"] a b c
    by (simp add: list_all_iff)
  moreover have "build_seed_texts toy_web [] [] = Inl IndexError"
    using blank_topic_raises_IndexError [of toy_web "[]" "[]"] d by simp
  ultimately show ?thesis using a b c by simp
qed

section \<open>The question loop\<close>

lemma random_choice_Inr:
  "random_choice xs g = Inr (x, g') \<Longrightarrow> xs \<noteq> [] \<and> x \<in> set xs"
  using pick_mem [of xs g] by (auto simp: random_choice_def split: if_splits)

lemma random_choice_Inl: "random_choice xs g = Inl e \<Longrightarrow> xs = []"
  by (simp add: random_choice_def split: if_splits)

lemma paraphrase_simple_Inl: "paraphrase_simple lib s g = Inl e \<Longrightarrow> \<not> names_importable lib"
  by (simp add: paraphrase_simple_def split: if_splits prod.splits)

lemma paraphrase_simple_Inr: "paraphrase_simple lib s g = Inr r \<Longrightarrow> names_importable lib"
  by (simp add: paraphrase_simple_def split: if_splits prod.splits)

lemma body_no_seed:
  "random_choice seeds g = Inl e \<Longrightarrow>
   loop_body lib tbl iid tp seeds saved log g = (Some e, saved, log, g)"
  unfolding loop_body_def by simp

lemma body_no_paraphrase:
  "random_choice seeds g = Inr ((src_url, tx), g1) \<Longrightarrow>
   generate_question_from_text lib tx tp g1 = (q0, g2) \<Longrightarrow>
   paraphrase_simple lib q0 g2 = Inl e \<Longrightarrow>
   loop_body lib tbl iid tp seeds saved log g = (Some e, saved, log, g2)"
  unfolding loop_body_def by simp

lemma body_after_paraphrase:
  assumes "random_choice seeds g = Inr ((src_url, tx), g1)"
    and "generate_question_from_text lib tx tp g1 = (q0, g2)"
    and "paraphrase_simple lib q0 g2 = Inr (qt, g3)"
    and "q = \<lparr>interview_id = iid, topic = tp, q_text = qt, source_url = src_url\<rparr>"
  shows "loop_body lib tbl iid tp seeds saved log g =
        (if 15 \<le> length (saved @ [q]) then
           (case tbl log (saved @ [q]) of
              Raised e \<Rightarrow> (Some e, saved @ [q], log @ [(saved @ [q], Raised e)], g3)
            | r \<Rightarrow> (None, [], log @ [(saved @ [q], r)], g3))
         else (None, saved @ [q], log, g3))"
  using assms(1-3) unfolding loop_body_def Let_def assms(4)
  by (simp split: insert_result.splits)

lemma body_pending:
  assumes "random_choice seeds g = Inr ((src_url, tx), g1)"
    and "generate_question_from_text lib tx tp g1 = (q0, g2)"
    and "paraphrase_simple lib q0 g2 = Inr (qt, g3)"
    and "q = \<lparr>interview_id = iid, topic = tp, q_text = qt, source_url = src_url\<rparr>"
    and "\<not> 15 \<le> length (saved @ [q])"
  shows "loop_body lib tbl iid tp seeds saved log g = (None, saved @ [q], log, g3)"
  using body_after_paraphrase [OF assms(1-4), of tbl saved log] assms(5) by simp

lemma body_raised:
  assumes "random_choice seeds g = Inr ((src_url, tx), g1)"
    and "generate_question_from_text lib tx tp g1 = (q0, g2)"
    and "paraphrase_simple lib q0 g2 = Inr (qt, g3)"
    and "q = \<lparr>interview_id = iid, topic = tp, q_text = qt, source_url = src_url\<rparr>"
    and "15 \<le> length (saved @ [q])"
    and "tbl log (saved @ [q]) = Raised e"
  shows "loop_body lib tbl iid tp seeds saved log g
         = (Some e, saved @ [q], log @ [(saved @ [q], Raised e)], g3)"
  using body_after_paraphrase [OF assms(1-4), of tbl saved log] assms(5,6) by simp

lemma body_flushed:
  assumes "random_choice seeds g = Inr ((src_url, tx), g1)"
    and "generate_question_from_text lib tx tp g1 = (q0, g2)"
    and "paraphrase_simple lib q0 g2 = Inr (qt, g3)"
    and "q = \<lparr>interview_id = iid, topic = tp, q_text = qt, source_url = src_url\<rparr>"
    and "15 \<le> length (saved @ [q])"
    and "\<not> is_raised (tbl log (saved @ [q]))"
  shows "loop_body lib tbl iid tp seeds saved log g
         = (None, [], log @ [(saved @ [q], tbl log (saved @ [q]))], g3)"
  using body_after_paraphrase [OF assms(1-4), of tbl saved log] assms(5,6)
  by (cases "tbl log (saved @ [q])") simp_all

lemma loop_body_cases [consumes 1, case_names abort pending flushed raised]:
  assumes run: "loop_body lib tbl iid tp seeds saved log g = (eo, saved', log', g')"
  obtains
    (abort) e where "eo = Some e" "saved' = saved" "log' = log"
      "seeds = [] \<or> \<not> names_importable lib"
  | (pending) q where "eo = None" "saved' = saved @ [q]" "log' = log"
      "length (saved @ [q]) < 15" "source_url q \<in> fst ` set seeds"
  | (flushed) q where "eo = None" "saved' = []"
      "log' = log @ [(saved @ [q], tbl log (saved @ [q]))]"
      "\<not> is_raised (tbl log (saved @ [q]))" "15 \<le> length (saved @ [q])"
      "source_url q \<in> fst ` set seeds"
  | (raised) q e where "eo = Some e" "saved' = saved @ [q]"
      "log' = log @ [(saved @ [q], Raised e)]" "tbl log (saved @ [q]) = Raised e"
      "15 \<le> length (saved @ [q])" "source_url q \<in> fst ` set seeds"
proof (cases "random_choice seeds g")
  case (Inl e)
  have "seeds = []" using Inl by (rule random_choice_Inl)
  moreover have "(eo, saved', log', g') = (Some e, saved, log, g)"
    using run [symmetric] body_no_seed [OF Inl, of lib tbl iid tp saved log] by (rule trans)
  ultimately show thesis using abort [of e] by simp
next
  case (Inr p)
  obtain src_url tx g1 where p: "p = ((src_url, tx), g1)"
    by (metis prod.collapse)
  have rc: "random_choice seeds g = Inr ((src_url, tx), g1)" using Inr p by simp
  have "(src_url, tx) \<in> set seeds" using random_choice_Inr [OF rc] by simp
  then have src: "src_url \<in> fst ` set seeds" by force
  obtain q0 g2 where gq: "generate_question_from_text lib tx tp g1 = (q0, g2)"
    by (metis prod.collapse)
  show thesis
  proof (cases "paraphrase_simple lib q0 g2")
    case (Inl e)
    have "\<not> names_importable lib" using Inl by (rule paraphrase_simple_Inl)
    moreover have "(eo, saved', log', g') = (Some e, saved, log, g2)"
      using run [symmetric] body_no_paraphrase [OF rc gq Inl, of tbl iid saved log] by (rule trans)
    ultimately show thesis using abort [of e] by simp
  next
    case (Inr pr)
    obtain qt g3 where "pr = (qt, g3)" by (metis prod.collapse)
    then have ps: "paraphrase_simple lib q0 g2 = Inr (qt, g3)" using Inr by simp
    define q where "q = \<lparr>interview_id = iid, topic = tp, q_text = qt, source_url = src_url\<rparr>"
    have sq: "source_url q \<in> fst ` set seeds" using src by (simp add: q_def)
    show thesis
    proof (cases "15 \<le> length (saved @ [q])")
      case False
      have "(eo, saved', log', g') = (None, saved @ [q], log, g3)"
        using run [symmetric] body_pending [OF rc gq ps q_def False, of tbl log] by (rule trans)
      then show thesis using pending [of q] False sq by simp
    next
      case True
      show thesis
      proof (cases "is_raised (tbl log (saved @ [q]))")
        case False
        have "(eo, saved', log', g')
            = (None, [], log @ [(saved @ [q], tbl log (saved @ [q]))], g3)"
          using run [symmetric] body_flushed [where tbl = tbl and log = log, OF rc gq ps q_def True False] by (rule trans)
        then show thesis using flushed [of q] False True sq by simp
      next
        case r: True
        then obtain e where e: "tbl log (saved @ [q]) = Raised e"
          by (cases "tbl log (saved @ [q])") simp_all
        have "(eo, saved', log', g')
            = (Some e, saved @ [q], log @ [(saved @ [q], Raised e)], g3)"
          using run [symmetric] body_raised [where tbl = tbl and log = log, OF rc gq ps q_def True e] by (rule trans)
        then show thesis using raised [of e q] e True sq by simp
      qed
    qed
  qed
qed

lemma question_loop_invariant:
  assumes run: "question_loop lib tbl iid tp seeds k saved log g = (eo, saved', log', g')"
    and init: "I saved log"
    and base: "\<And>s l. I s l \<Longrightarrow> P None s l"
    and continue: "\<And>s l g s1 l1 g1. I s l \<Longrightarrow>
        loop_body lib tbl iid tp seeds s l g = (None, s1, l1, g1) \<Longrightarrow> I s1 l1"
    and abort: "\<And>s l g e s1 l1 g1. I s l \<Longrightarrow>
        loop_body lib tbl iid tp seeds s l g = (Some e, s1, l1, g1) \<Longrightarrow> P (Some e) s1 l1"
  shows "P eo saved' log'"
  using run init
proof (induction k arbitrary: saved log g)
  case 0
  then show ?case using base by simp
next
  case (Suc k)
  obtain eo1 s1 l1 g1 where b: "loop_body lib tbl iid tp seeds saved log g = (eo1, s1, l1, g1)"
    by (metis prod.collapse)
  show ?case
  proof (cases eo1)
    case None
    then have "question_loop lib tbl iid tp seeds k s1 l1 g1 = (eo, saved', log', g')"
      using Suc.prems(1) b by simp
    moreover have "I s1 l1" using continue [OF Suc.prems(2)] b None by simp
    ultimately show ?thesis by (rule Suc.IH)
  next
    case (Some e)
    then have "(eo, saved', log', g') = (Some e, s1, l1, g1)"
      using Suc.prems(1) b by simp
    moreover have "P (Some e) s1 l1" using abort [OF Suc.prems(2)] b Some by simp
    ultimately show ?thesis by simp
  qed
qed

lemma question_loop_count:
  "question_loop lib tbl iid tp seeds k saved log g = (None, saved', log', g') \<Longrightarrow>
   length (concat (batches log')) + length saved' = length (concat (batches log)) + length saved + k"
proof (induction k arbitrary: saved log g)
  case 0
  then show ?case by simp
next
  case (Suc k)
  obtain eo1 s1 l1 g1 where b: "loop_body lib tbl iid tp seeds saved log g = (eo1, s1, l1, g1)"
    by (metis prod.collapse)
  have n: "eo1 = None" using Suc.prems b by (cases eo1) simp_all
  then have r: "question_loop lib tbl iid tp seeds k s1 l1 g1 = (None, saved', log', g')"
    using Suc.prems b by simp
  have "length (concat (batches l1)) + length s1 = length (concat (batches log)) + length saved + 1"
    using b n by (cases rule: loop_body_cases) (simp_all add: batches_def)
  then show ?case using Suc.IH [OF r] by simp
qed

lemma question_loop_sizes:
  assumes "question_loop lib tbl iid tp seeds k saved log g = (eo, saved', log', g')"
    and "length saved < 15" and "\<forall>b \<in> set (batches log). length b = 15"
  shows "(\<forall>b \<in> set (batches log'). length b = 15) \<and> (eo = None \<longrightarrow> length saved' < 15)"
proof (rule question_loop_invariant
    [where I = "\<lambda>s l. length s < 15 \<and> (\<forall>b \<in> set (batches l). length b = 15)"
       and P = "\<lambda>eo s l. (\<forall>b \<in> set (batches l). length b = 15) \<and> (eo = None \<longrightarrow> length s < 15)",
     OF assms(1)])
  show "length saved < 15 \<and> (\<forall>b \<in> set (batches log). length b = 15)" using assms(2,3) by simp
next
  fix s l assume "length s < 15 \<and> (\<forall>b \<in> set (batches l). length b = 15)"
  then show "(\<forall>b \<in> set (batches l). length b = 15) \<and> (None = None \<longrightarrow> length s < 15)" by simp
next
  fix s l g s1 l1 g1
  assume i: "length s < 15 \<and> (\<forall>b \<in> set (batches l). length b = 15)"
    and b: "loop_body lib tbl iid tp seeds s l g = (None, s1, l1, g1)"
  from b i show "length s1 < 15 \<and> (\<forall>b \<in> set (batches l1). length b = 15)"
    by (cases rule: loop_body_cases) (auto simp: batches_def)
next
  fix s l g e s1 l1 g1
  assume i: "length s < 15 \<and> (\<forall>b \<in> set (batches l). length b = 15)"
    and b: "loop_body lib tbl iid tp seeds s l g = (Some e, s1, l1, g1)"
  from b i show "(\<forall>b \<in> set (batches l1). length b = 15) \<and> (Some e = None \<longrightarrow> length s1 < 15)"
    by (cases rule: loop_body_cases) (auto simp: batches_def)
qed

lemma question_loop_provenance:
  assumes "question_loop lib tbl iid tp seeds k saved log g = (eo, saved', log', g')"
    and "\<forall>q \<in> set (concat (batches log)) \<union> set saved. source_url q \<in> fst ` set seeds"
  shows "\<forall>q \<in> set (concat (batches log')) \<union> set saved'. source_url q \<in> fst ` set seeds"
proof (rule question_loop_invariant
    [where I = "\<lambda>s l. \<forall>q \<in> set (concat (batches l)) \<union> set s. source_url q \<in> fst ` set seeds"
       and P = "\<lambda>eo s l. \<forall>q \<in> set (concat (batches l)) \<union> set s. source_url q \<in> fst ` set seeds",
     OF assms(1)])
  show "\<forall>q \<in> set (concat (batches log)) \<union> set saved. source_url q \<in> fst ` set seeds"
    using assms(2) .
next
  fix s l
  assume "\<forall>q \<in> set (concat (batches l)) \<union> set s. source_url q \<in> fst ` set seeds"
  then show "\<forall>q \<in> set (concat (batches l)) \<union> set s. source_url q \<in> fst ` set seeds" .
next
  fix s l g s1 l1 g1
  assume i: "\<forall>q \<in> set (concat (batches l)) \<union> set s. source_url q \<in> fst ` set seeds"
    and b: "loop_body lib tbl iid tp seeds s l g = (None, s1, l1, g1)"
  from b i show "\<forall>q \<in> set (concat (batches l1)) \<union> set s1. source_url q \<in> fst ` set seeds"
    by (cases rule: loop_body_cases) (auto simp: batches_def)
next
  fix s l g e s1 l1 g1
  assume i: "\<forall>q \<in> set (concat (batches l)) \<union> set s. source_url q \<in> fst ` set seeds"
    and b: "loop_body lib tbl iid tp seeds s l g = (Some e, s1, l1, g1)"
  from b i show "\<forall>q \<in> set (concat (batches l1)) \<union> set s1. source_url q \<in> fst ` set seeds"
    by (cases rule: loop_body_cases) (auto simp: batches_def)
qed




lemma question_loop_completes:
  assumes "question_loop lib tbl iid tp seeds k saved log g = (eo, saved', log', g')"
    and "names_importable lib" and "seeds \<noteq> []" and "\<forall>l b. \<not> is_raised (tbl l b)"
  shows "eo = None"
proof (rule question_loop_invariant
    [where I = "\<lambda>s l. True" and P = "\<lambda>eo s l. eo = None", OF assms(1)])
  show True ..
next
  fix s :: "question list" and l :: insert_log
  show "None = (None :: exn option)" ..
next
  fix s l g s1 l1 g1
  show True ..
next
  fix s l g e s1 l1 g1
  assume b: "loop_body lib tbl iid tp seeds s l g = (Some e, s1, l1, g1)"
  from b show "Some e = None"
  proof (cases rule: loop_body_cases)
    case (abort e')
    then show ?thesis using assms(2,3) by simp
  next
    case (raised q e')
    then show ?thesis using assms(4) by (metis is_raised.simps(1))
  qed simp_all
qed


lemma generate_questions_cases [case_names aborted no_rest rest rest_raised]:
  obtains
    (aborted) e s l g' where
      "question_loop lib tbl iid tp seeds (nat n) [] [] g = (Some e, s, l, g')"
      "generate_questions lib tbl iid tp seeds n g = (Inl e, l)"
  | (no_rest) l g' where
      "question_loop lib tbl iid tp seeds (nat n) [] [] g = (None, [], l, g')"
      "generate_questions lib tbl iid tp seeds n g = (Inr n, l)"
  | (rest) s l g' where
      "question_loop lib tbl iid tp seeds (nat n) [] [] g = (None, s, l, g')"
      "s \<noteq> []" "\<not> is_raised (tbl l s)"
      "generate_questions lib tbl iid tp seeds n g = (Inr n, l @ [(s, tbl l s)])"
  | (rest_raised) s l g' e where
      "question_loop lib tbl iid tp seeds (nat n) [] [] g = (None, s, l, g')"
      "s \<noteq> []" "tbl l s = Raised e"
      "generate_questions lib tbl iid tp seeds n g = (Inl e, l @ [(s, Raised e)])"
proof -
  obtain eo s l g' where
    loop: "question_loop lib tbl iid tp seeds (nat n) [] [] g = (eo, s, l, g')"
    by (metis prod.collapse)
  show thesis
  proof (cases eo)
    case (Some e)
    then have "generate_questions lib tbl iid tp seeds n g = (Inl e, l)"
      using loop by (simp add: generate_questions_def)
    then show thesis using aborted [of e s l g'] loop Some by simp
  next
    case None
    show thesis
    proof (cases "s = []")
      case True
      then have "generate_questions lib tbl iid tp seeds n g = (Inr n, l)"
        using loop None by (simp add: generate_questions_def)
      then show thesis using no_rest [of l g'] loop None True by simp
    next
      case False
      show thesis
      proof (cases "tbl l s")
        case (Raised e)
        then have "generate_questions lib tbl iid tp seeds n g = (Inl e, l @ [(s, Raised e)])"
          using loop None False by (simp add: generate_questions_def)
        then show thesis using rest_raised [of s l g' e] loop None False Raised by simp
      next
        case Stored
        then have "generate_questions lib tbl iid tp seeds n g = (Inr n, l @ [(s, tbl l s)])"
          using loop None False by (simp add: generate_questions_def)
        then show thesis using rest [of s l g'] loop None False Stored by simp
      next
        case (Refused c)
        then have "generate_questions lib tbl iid tp seeds n g = (Inr n, l @ [(s, tbl l s)])"
          using loop None False by (simp add: generate_questions_def)
        then show thesis using rest [of s l g'] loop None False Refused by simp
      qed
    qed
  qed
qed


lemma generate_questions_completes:
  assumes "names_importable lib" and "seeds \<noteq> []" and "\<forall>l b. \<not> is_raised (tbl l b)"
  shows "fst (generate_questions lib tbl iid tp seeds n g) = Inr n
         \<and> length (concat (batches (snd (generate_questions lib tbl iid tp seeds n g)))) = nat n"
proof (cases rule: generate_questions_cases [of lib tbl iid tp seeds n g])
  case (aborted e s l g')
  show ?thesis unfolding aborted(2) using question_loop_completes [OF aborted(1) assms] by simp
next
  case (no_rest l g')
  show ?thesis unfolding no_rest(2) using question_loop_count [OF no_rest(1)]
    by (simp add: batches_def)
next
  case (rest s l g')
  show ?thesis unfolding rest(4) using rest(2,3) question_loop_count [OF rest(1)]
    by (simp add: batches_def)
next
  case (rest_raised s l g' e)
  show ?thesis unfolding rest_raised(4) using rest_raised(2,3) assms(3)
    by (metis is_raised.simps(1))
qed

lemma generate_questions_provenance:
  "\<forall>q \<in> set (concat (batches (snd (generate_questions lib tbl iid tp seeds n g)))).
     source_url q \<in> fst ` set seeds"
proof -
  have p: "\<forall>q \<in> set (concat (batches l)) \<union> set s. source_url q \<in> fst ` set seeds"
    if "question_loop lib tbl iid tp seeds (nat n) [] [] g = (eo, s, l, g')" for eo s l g'
    using question_loop_provenance [OF that] by (simp add: batches_def)
  show ?thesis
  proof (cases rule: generate_questions_cases [of lib tbl iid tp seeds n g])
    case (aborted e s l g')
    show ?thesis unfolding aborted(2) using p [OF aborted(1)] by simp
  next
    case (no_rest l g')
    show ?thesis unfolding no_rest(2) using p [OF no_rest(1)] by simp
  next
    case (rest s l g')
    show ?thesis unfolding rest(4) using rest(2,3) p [OF rest(1)] by (auto simp: batches_def)
  next
    case (rest_raised s l g' e)
    show ?thesis unfolding rest_raised(4) using rest_raised(2,3) p [OF rest_raised(1)]
      by (auto simp: batches_def)
  qed
qed



lemma build_seed_texts_nonempty:
  "build_seed_texts w tp extra_urls = Inr seeds \<Longrightarrow> seeds \<noteq> []"
  by (auto simp: build_seed_texts_def or_local_fallback_def
      split: sum.splits list.splits if_splits)

lemma length_concat_const:
  "\<forall>b \<in> set bs. length b = c \<Longrightarrow> length (concat bs) = c * length bs"
  by (induction bs) simp_all

lemma sizes_from_start:
  assumes "question_loop lib tbl iid tp seeds k [] [] g = (eo, s, l, g')"
  shows "(\<forall>b \<in> set (batches l). length b = 15) \<and> (eo = None \<longrightarrow> length s < 15)"
  using question_loop_sizes [OF assms] by (simp add: batches_def)

lemma count_from_start:
  assumes "question_loop lib tbl iid tp seeds k [] [] g = (None, s, l, g')"
  shows "15 * length (batches l) + length s = k"
proof -
  have "length (concat (batches l)) + length s = k"
    using question_loop_count [OF assms] by (simp add: batches_def)
  moreover have "length (concat (batches l)) = 15 * length (batches l)"
    using sizes_from_start [OF assms] by (intro length_concat_const) simp
  ultimately show ?thesis by simp
qed

lemma full_batches: "15 * a = (k::nat) \<Longrightarrow> a = (k + 14) div 15 \<and> k mod 15 = 0"
  by auto

lemma with_rest:
  "15 * a + s = (k::nat) \<Longrightarrow> 0 < s \<Longrightarrow> s < 15 \<Longrightarrow> a + 1 = (k + 14) div 15 \<and> s = k mod 15"
  by auto

lemma sizes_all_full:
  assumes "\<forall>b \<in> set bs. length b = (15::nat)"
  shows "(\<forall>b \<in> set (butlast bs). length b = 15) \<and> (\<forall>b \<in> set bs. 1 \<le> length b \<and> length b \<le> 15)"
  using assms by (auto dest: in_set_butlastD)

lemma sizes_with_rest:
  assumes "\<forall>b \<in> set bs. length b = (15::nat)" and "0 < length s" and "length s < 15"
  shows "(\<forall>b \<in> set (butlast (bs @ [s])). length b = 15)
         \<and> (\<forall>b \<in> set (bs @ [s]). 1 \<le> length b \<and> length b \<le> 15)"
proof -
  have "Suc 0 \<le> length s" using assms(2) by (cases s) simp_all
  then show ?thesis using assms(1,3) by auto
qed

lemma toy_importable: "names_importable toy_nltk"
  by (simp add: toy_nltk_def)

lemma demo_seed_nonempty: "demo_seed \<noteq> []"
  by (simp add: demo_seed_def)

lemma storing_never_raises: "\<forall>log saved. \<not> is_raised (storing_table log saved)"
  by (simp add: storing_table_def)















lemma loop_body_import_failure:
  assumes "\<not> names_importable lib" and "seeds \<noteq> []"
  shows "\<exists>g'. loop_body lib tbl iid tp seeds saved log g = (Some ImportError, saved, log, g')"
proof -
  obtain src_url tx g1 where p: "pick seeds g = ((src_url, tx), g1)" by (metis prod.collapse)
  have rc: "random_choice seeds g = Inr ((src_url, tx), g1)"
    using assms(2) p by (simp add: random_choice_def)
  obtain q0 g2 where gq: "generate_question_from_text lib tx tp g1 = (q0, g2)"
    by (metis prod.collapse)
  have ps: "paraphrase_simple lib q0 g2 = Inl ImportError"
    using assms(1) by (simp add: paraphrase_simple_def)
  show ?thesis using body_no_paraphrase [OF rc gq ps, of tbl iid saved log] by blast
qed

section \<open>Claims about the Generate tab\<close>

text \<open>
  Claim C1. The claim fails on the code. The first pass of the loop calls
  \<open>paraphrase_simple\<close>, whose import raises when the tokenize module has no \<open>pos_tag\<close>,
  as in the distributed toolkit: the exception leaves the run before any record is
  appended, and the questions table receives no insert at all, for every non-empty seed
  corpus and every positive count. (With the names importable and no raising insert the
  run hands over exactly \<open>n_q\<close> records: \<open>generate_questions_completes\<close>.)
\<close>

theorem import_failure_stops_generation:
  assumes "\<not> names_importable lib" and "seed_texts \<noteq> []" and "0 < n_q"
  shows "generate_questions lib tbl iid topic_str seed_texts n_q g = (Inl ImportError, [])"
proof -
  obtain k where k: "nat n_q = Suc k" using assms(3) by (cases "nat n_q") simp_all
  obtain g' where b: "loop_body lib tbl iid topic_str seed_texts [] [] g
      = (Some ImportError, [], [], g')"
    using loop_body_import_failure [OF assms(1,2)] by blast
  have "question_loop lib tbl iid topic_str seed_texts (nat n_q) [] [] g
      = (Some ImportError, [], [], g')"
    unfolding k using b by simp
  then show ?thesis by (simp add: generate_questions_def)
qed

theorem import_failure_stops_generation_witness:
  "\<not> names_importable stock_nltk \<and> demo_seed \<noteq> [] \<and> (0::int) < 30
   \<and> generate_questions stock_nltk storing_table (Some 1) ''DevOps'' demo_seed 30 [3, 1, 4]
       = (Inl ImportError, [])"
proof -
  have z: "(0::int) < 30" by simp
  show ?thesis
    using stock_not_importable demo_seed_nonempty z
      import_failure_stops_generation [OF stock_not_importable demo_seed_nonempty z]
    by simp
qed

text \<open>
  Claim C2. Every record handed to the questions table carries as \<open>source_url\<close> the
  identifier of a pair of the seed corpus it was drawn from; the field is set from the
  drawn pair and paraphrasing rewrites \<open>q_text\<close> only.
\<close>

theorem provenance_preserved:
  "\<forall>q \<in> set (concat (batches (snd (generate_questions lib tbl iid topic_str seed_texts n_q g)))).
     source_url q \<in> fst ` set seed_texts"
  by (rule generate_questions_provenance)

theorem provenance_preserved_witness:
  "list_all (\<lambda>q. source_url q = ''local_fallback'')
     (concat (batches (snd
        (generate_questions toy_nltk storing_table (Some 1) ''DevOps'' demo_seed 30 [3, 1, 4]))))
   \<and> length (concat (batches (snd
        (generate_questions toy_nltk storing_table (Some 1) ''DevOps'' demo_seed 30 [3, 1, 4])))) = 30"
proof -
  have "fst ` set demo_seed = {''local_fallback''}" by (simp add: demo_seed_def)
  then have "list_all (\<lambda>q. source_url q = ''local_fallback'')
     (concat (batches (snd
        (generate_questions toy_nltk storing_table (Some 1) ''DevOps'' demo_seed 30 [3, 1, 4]))))"
    using provenance_preserved [of toy_nltk storing_table "Some 1" "''DevOps''" demo_seed 30 "[3, 1, 4]"]
    unfolding list_all_iff by simp
  moreover have "length (concat (batches (snd
        (generate_questions toy_nltk storing_table (Some 1) ''DevOps'' demo_seed 30 [3, 1, 4])))) = 30"
    using generate_questions_completes
      [OF toy_importable demo_seed_nonempty storing_never_raises, of "Some 1" "''DevOps''" 30 "[3, 1, 4]"]
    by simp
  ultimately show ?thesis by simp
qed

text \<open>
  Claim C10. In every run, whatever the table answers, each insert but the last carries
  exactly 15 records and no insert carries fewer than 1 or more than 15. A run that
  completes makes \<open>\<lceil>n_q / 15\<rceil>\<close> inserts, and when 15 does not divide \<open>n_q\<close> its
  last insert carries the remainder, between 1 and 14 records.
\<close>

theorem batch_sizes:
  "(\<forall>b \<in> set (butlast (batches (snd (generate_questions lib tbl iid topic_str seed_texts n_q g)))).
      length b = 15)
   \<and> (\<forall>b \<in> set (batches (snd (generate_questions lib tbl iid topic_str seed_texts n_q g))).
      1 \<le> length b \<and> length b \<le> 15)
   \<and> (fst (generate_questions lib tbl iid topic_str seed_texts n_q g) = Inr n_q \<longrightarrow>
        length (batches (snd (generate_questions lib tbl iid topic_str seed_texts n_q g)))
          = (nat n_q + 14) div 15
        \<and> (nat n_q mod 15 \<noteq> 0 \<longrightarrow>
             length (last (batches (snd (generate_questions lib tbl iid topic_str seed_texts n_q g))))
               = nat n_q mod 15))"
proof (cases rule: generate_questions_cases [of lib tbl iid topic_str seed_texts n_q g])
  case (aborted e s l g')
  have "\<forall>b \<in> set (batches l). length b = 15" using sizes_from_start [OF aborted(1)] by simp
  then show ?thesis unfolding aborted(2) using sizes_all_full [of "batches l"] by simp
next
  case (no_rest l g')
  have a: "\<forall>b \<in> set (batches l). length b = 15" using sizes_from_start [OF no_rest(1)] by simp
  have "15 * length (batches l) + length ([] :: question list) = nat n_q"
    using no_rest(1) by (rule count_from_start)
  then have "15 * length (batches l) = nat n_q" by simp
  then have "length (batches l) = (nat n_q + 14) div 15 \<and> nat n_q mod 15 = 0"
    by (rule full_batches)
  then show ?thesis unfolding no_rest(2) using sizes_all_full [OF a] by simp
next
  case (rest s l g')
  have a: "\<forall>b \<in> set (batches l). length b = 15" and b: "length s < 15"
    using sizes_from_start [OF rest(1)] by simp_all
  have c: "0 < length s" using rest(2) by simp
  have "15 * length (batches l) + length s = nat n_q" using rest(1) by (rule count_from_start)
  then have d: "length (batches l) + 1 = (nat n_q + 14) div 15 \<and> length s = nat n_q mod 15"
    using c b by (rule with_rest)
  have e: "batches (l @ [(s, tbl l s)]) = batches l @ [s]" by (simp add: batches_def)
  show ?thesis unfolding rest(4) snd_conv fst_conv e
    using sizes_with_rest [OF a c b] d by simp
next
  case (rest_raised s l g' e)
  have a: "\<forall>b \<in> set (batches l). length b = 15" and b: "length s < 15"
    using sizes_from_start [OF rest_raised(1)] by simp_all
  have c: "0 < length s" using rest_raised(2) by simp
  have e: "batches (l @ [(s, Raised e)]) = batches l @ [s]" by (simp add: batches_def)
  show ?thesis unfolding rest_raised(4) snd_conv fst_conv e
    using sizes_with_rest [OF a c b] by simp
qed

theorem batch_sizes_witness:
  "fst (generate_questions toy_nltk storing_table (Some 1) ''DevOps'' demo_seed 40 [3, 1, 4]) = Inr 40
   \<and> length (batches (snd
        (generate_questions toy_nltk storing_table (Some 1) ''DevOps'' demo_seed 40 [3, 1, 4]))) = 3
   \<and> length (last (batches (snd
        (generate_questions toy_nltk storing_table (Some 1) ''DevOps'' demo_seed 40 [3, 1, 4])))) = 10"
proof -
  have a: "fst (generate_questions toy_nltk storing_table (Some 1) ''DevOps'' demo_seed 40 [3, 1, 4]) = Inr 40"
    using generate_questions_completes
      [OF toy_importable demo_seed_nonempty storing_never_raises, of "Some 1" "''DevOps''" 40 "[3, 1, 4]"]
    by simp
  have b: "(nat 40 + 14) div 15 = 3" "nat 40 mod 15 = 10" by simp_all
  show ?thesis
    using a b batch_sizes [of toy_nltk storing_table "Some 1" "''DevOps''" demo_seed 40 "[3, 1, 4]"]
    by simp
qed




end
